theory Spec2Isabelle
  imports Complex_Main
begin

section \<open>Reviewer page: extracted fields and human corrections\<close>

text \<open>
  The Reviewer component of \<^verbatim>\<open>src/frontend/src/components/Footer.tsx\<close>
  (third module of that file) keeps a list of extracted fields in React state and lets
  a reviewer overwrite a field.  A TypeScript \<^verbatim>\<open>number\<close> is read as a real, an
  optional property \<^verbatim>\<open>corrected?: string\<close> as a \<^typ>\<open>string option\<close> with
  \<^term>\<open>None\<close> for \<^verbatim>\<open>undefined\<close>.  Strings are byte lists: a character beyond
  ASCII stands as its UTF-8 bytes, which keeps \<^verbatim>\<open>===\<close> on strings an equality of
  lists.
\<close>

record Field =
  key :: string
  label :: string
  "value" :: string
  confidence :: real
  corrected :: "string option"

definition rupee :: string where
  "rupee = [CHR 0xE2, CHR 0x82, CHR 0xB9]"

definition en_dash :: string where
  "en_dash = [CHR 0xE2, CHR 0x80, CHR 0x93]"

definition mkField :: "string \<Rightarrow> string \<Rightarrow> string \<Rightarrow> real \<Rightarrow> Field" where
  "mkField k l v c = \<lparr>key = k, label = l, value = v, confidence = c, corrected = None\<rparr>"

definition initialFields :: "Field list" where
  "initialFields =
    [mkField ''account_holder'' ''Account Holder'' ''Rajesh Kumar Sharma'' 98.2,
     mkField ''bank_name'' ''Bank Name'' ''HDFC Bank Ltd.'' 99.1,
     mkField ''account_number'' ''Account Number'' ''XXXX XXXX 4521'' 96.7,
     mkField ''ifsc'' ''IFSC Code'' ''HDFC0001234'' 97.8,
     mkField ''statement_period'' ''Statement Period''
       (''01 Jan 2025 '' @ en_dash @ '' 31 Jan 2025'') 95.3,
     mkField ''opening_balance'' ''Opening Balance'' (rupee @ ''1,24,567.89'') 93.4,
     mkField ''closing_balance'' ''Closing Balance'' (rupee @ ''1,87,234.56'') 91.2,
     mkField ''total_credits'' ''Total Credits'' (rupee @ ''3,45,000.00'') 88.7,
     mkField ''total_debits'' ''Total Debits'' (rupee @ ''2,82,333.33'') 87.9,
     mkField ''salary_credit'' ''Salary Credit'' (rupee @ ''85,000.00'') 72.4,
     mkField ''employer'' ''Employer Name'' ''Infosys Technologies Ltd'' 68.3]"

text \<open>
  The component state: the five \<^verbatim>\<open>useState\<close> cells of \<^verbatim>\<open>Reviewer\<close>.
\<close>

record Reviewer =
  fields_st :: "Field list"
  editingKey :: "string option"
  editValue :: string
  saved :: bool
  showTransactions :: bool

definition initialReviewer :: Reviewer where
  "initialReviewer =
    \<lparr>fields_st = initialFields, editingKey = None, editValue = [], saved = False,
     showTransactions = True\<rparr>"

text \<open>
  JavaScript's \<^verbatim>\<open>a || b\<close> on an optional string \<^verbatim>\<open>a\<close>: the result is
  \<^verbatim>\<open>a\<close> when \<^verbatim>\<open>a\<close> is truthy, that is neither \<^verbatim>\<open>undefined\<close> nor the
  empty string, and \<^verbatim>\<open>b\<close> otherwise.
\<close>

definition truthy :: "string option \<Rightarrow> bool" where
  "truthy c = (case c of None \<Rightarrow> False | Some s \<Rightarrow> s \<noteq> [])"

definition or_else :: "string option \<Rightarrow> string \<Rightarrow> string" where
  "or_else c v = (case c of None \<Rightarrow> v | Some s \<Rightarrow> if s \<noteq> [] then s else v)"

definition startEdit :: "Field \<Rightarrow> Reviewer \<Rightarrow> Reviewer" where
  "startEdit field s =
     s\<lparr>editingKey := Some (key field),
       editValue := or_else (corrected field) (value field)\<rparr>"

text \<open>The \<^verbatim>\<open>onChange\<close> handler of the edit box.\<close>

definition onChange :: "string \<Rightarrow> Reviewer \<Rightarrow> Reviewer" where
  "onChange v s = s\<lparr>editValue := v\<rparr>"

text \<open>
  \<^verbatim>\<open>saveEdit\<close> maps over the whole list; the function applied to each element is
  \<open>saveField\<close>.  The timer that resets \<^verbatim>\<open>saved\<close> after three seconds is the
  separate event \<open>savedTimeout\<close>.
\<close>

definition saveField :: "string \<Rightarrow> string \<Rightarrow> Field \<Rightarrow> Field" where
  "saveField k ev f =
     (if key f = k
      then f\<lparr>corrected := (if ev \<noteq> value f then Some ev else None)\<rparr>
      else f)"

definition saveEdit :: "string \<Rightarrow> Reviewer \<Rightarrow> Reviewer" where
  "saveEdit k s =
     s\<lparr>fields_st := map (saveField k (editValue s)) (fields_st s),
       editingKey := None,
       saved := True\<rparr>"

definition savedTimeout :: "Reviewer \<Rightarrow> Reviewer" where
  "savedTimeout s = s\<lparr>saved := False\<rparr>"

text \<open>
  One complete edit as the user performs it: press the edit button of the field at
  position \<open>i\<close>, replace the text of the edit box by \<open>v\<close>, press save.  The save
  button belongs to the field being edited, so it passes that field's key.
\<close>

definition correct :: "nat \<Rightarrow> string \<Rightarrow> Reviewer \<Rightarrow> Reviewer" where
  "correct i v s =
     (if i < length (fields_st s)
      then saveEdit (key (fields_st s ! i)) (onChange v (startEdit (fields_st s ! i) s))
      else s)"

text \<open>What a field row shows when it is not being edited.\<close>

definition displayedValue :: "Field \<Rightarrow> string" where
  "displayedValue field = or_else (corrected field) (value field)"

definition correctedBadge :: "Field \<Rightarrow> bool" where
  "correctedBadge field = truthy (corrected field)"


text \<open>
  The confidence chip of a field row (\<^verbatim>\<open>confidenceColor\<close>, \<^verbatim>\<open>confidenceBg\<close>)
  and the warning triangle next to it (\<^verbatim>\<open>field.confidence < 75 && ...\<close>).
\<close>

definition confidenceColor :: "real \<Rightarrow> string" where
  "confidenceColor c =
     (if c \<ge> 90 then ''text-success''
      else if c \<ge> 75 then ''text-warning''
      else ''text-destructive'')"

definition confidenceBg :: "real \<Rightarrow> string" where
  "confidenceBg c =
     (if c \<ge> 90 then ''bg-success/10''
      else if c \<ge> 75 then ''bg-warning/10''
      else ''bg-destructive/10'')"

definition attentionFlag :: "Field \<Rightarrow> bool" where
  "attentionFlag field = (confidence field < 75)"

text \<open>
  The statement's transactions and the validation section.  Both are literals of the
  module: the check list is an array written inside the JSX, mapped to rows as it
  stands, so its content does not depend on the state; the rows are on screen while
  the validation section is expanded (\<^verbatim>\<open>showTransactions\<close>).
\<close>

record Transaction =
  date :: string
  desc :: string
  credit :: string
  debit :: string
  balance :: string

definition transactions :: "Transaction list" where
  "transactions =
    [\<lparr>date = ''02 Jan'', desc = ''NEFT-INFOSYS TECH'', credit = rupee @ ''85,000'',
      debit = [], balance = rupee @ ''2,09,567.89''\<rparr>,
     \<lparr>date = ''05 Jan'', desc = ''UPI/SWIGGY'', credit = [],
      debit = rupee @ ''456.00'', balance = rupee @ ''2,09,111.89''\<rparr>,
     \<lparr>date = ''10 Jan'', desc = ''EMI-HDFC HOME LOAN'', credit = [],
      debit = rupee @ ''32,500.00'', balance = rupee @ ''1,76,611.89''\<rparr>,
     \<lparr>date = ''15 Jan'', desc = ''UPI/AMAZON'', credit = [],
      debit = rupee @ ''2,340.00'', balance = rupee @ ''1,74,271.89''\<rparr>,
     \<lparr>date = ''20 Jan'', desc = ''NEFT-DIVIDEND'', credit = rupee @ ''12,962.67'',
      debit = [], balance = rupee @ ''1,87,234.56''\<rparr>]"

definition validationChecks :: "Reviewer \<Rightarrow> (string \<times> bool) list" where
  "validationChecks s =
    [(''Balance continuity verified'', True),
     (''Date sequencing valid'', True),
     (''Salary matches employer pattern'', False),
     (''Cross-document consistency'', True)]"

section \<open>Upload page: the simulated pipeline\<close>

text \<open>
  The Upload component of \<^verbatim>\<open>src/frontend/src/pages/Dashboard.tsx\<close> (second module
  of that file).  \<^verbatim>\<open>DocFile["status"]\<close> is a union of six string literals.
\<close>

datatype Status = Uploading | Classifying | Extracting | Validating | Done | Review

record DocFile =
  id_doc :: string
  name :: string
  status :: Status
  type :: "string option"
  confidence_doc :: "real option"

definition mockDocs :: "DocFile list" where
  "mockDocs =
    [\<lparr>id_doc = ''1'', name = ''HDFC_Statement_Jan2025.pdf'', status = Done,
      type = Some ''Bank Statement'', confidence_doc = Some 97.3\<rparr>,
     \<lparr>id_doc = ''2'', name = ''Payslip_Dec2024.pdf'', status = Done,
      type = Some ''Payslip'', confidence_doc = Some 94.8\<rparr>,
     \<lparr>id_doc = ''3'', name = ''Settlement_Letter.pdf'', status = Review,
      type = Some ''Settlement Letter'', confidence_doc = Some 72.1\<rparr>]"

text \<open>
  \<^verbatim>\<open>Date.now().toString()\<close>: the clock reading, a number of milliseconds, in decimal.
\<close>

definition digit :: "nat \<Rightarrow> char" where
  "digit d = ''0123456789'' ! d"

function toString :: "nat \<Rightarrow> string" where
  "toString n = (if n < 10 then [digit n] else toString (n div 10) @ [digit (n mod 10)])"
  by pat_completeness auto
termination
  by (relation "measure (\<lambda>n. n)") auto

declare toString.simps [simp del]

text \<open>
  Reading decimal digits back: \<open>number_of\<close> is the number written by the digits of a
  text, other characters skipped.
\<close>

definition digit_of :: "char \<Rightarrow> nat option" where
  "digit_of = map_of (zip ''0123456789'' [0, 1, 2, 3, 4, 5, 6, 7, 8, 9])"

definition number_of :: "string \<Rightarrow> nat" where
  "number_of s = foldl (\<lambda>a c. case digit_of c of Some d \<Rightarrow> 10 * a + d | None \<Rightarrow> a) 0 s"

definition stages :: "Status list" where
  "stages = [Classifying, Extracting, Validating, Done]"

definition types :: "string list" where
  "types = [''Bank Statement'', ''Invoice'', ''Payslip'', ''Agreement'']"

definition randomType :: "real \<Rightarrow> string option" where
  "randomType r =
     (let j = \<lfloor>r * real (length types)\<rfloor>
      in if 0 \<le> j \<and> nat j < length types then Some (types ! nat j) else None)"

text \<open>
  \<^verbatim>\<open>simulateUpload\<close> registers one timer per stage.  A pending timer is the closure
  of its callback (the document id, the stage and its position \<open>i\<close> in \<^verbatim>\<open>stages\<close>)
  with the time at which it falls due.  Its callback maps \<open>stageUpdate\<close> over the file
  list.  For each file it takes what the runtime hands it: \<open>r\<close>, the value of
  \<^verbatim>\<open>Math.random()\<close> that picks the type, and \<open>c\<close>, the double that
  \<^verbatim>\<open>85 + Math.random() * 14\<close> evaluates to.  The sum is computed and rounded by the
  runtime in double arithmetic, so the model takes its result as given and does no
  arithmetic of its own on it; the index \<^verbatim>\<open>Math.floor(Math.random() * 4)\<close> is exact
  in doubles.
\<close>

record Timer =
  due :: nat
  target :: string
  stage :: Status
  index :: nat

definition stageUpdate :: "Timer \<Rightarrow> real \<Rightarrow> real \<Rightarrow> DocFile \<Rightarrow> DocFile" where
  "stageUpdate tm r c f =
     (if id_doc f = target tm
      then f\<lparr>status := stage tm,
             type := (if index tm \<ge> 1 then randomType r else None),
             confidence_doc := (if stage tm = Done then Some c else None)\<rparr>
      else f)"

text \<open>
  The page: the two \<^verbatim>\<open>useState\<close> cells of \<^verbatim>\<open>Upload\<close>, and what the browser
  holds for it, the pending timers in the order of their registration and the clock in
  milliseconds.
\<close>

record Page =
  files :: "DocFile list"
  dragOver :: bool
  timers :: "Timer list"
  clock :: nat

definition initialPage :: "nat \<Rightarrow> Page" where
  "initialPage t0 = \<lparr>files = mockDocs, dragOver = False, timers = [], clock = t0\<rparr>"

definition simulateUpload :: "string \<Rightarrow> Page \<Rightarrow> Page" where
  "simulateUpload nm p =
     (let ident = toString (clock p);
          newFile = \<lparr>id_doc = ident, name = nm, status = Uploading, type = None,
                     confidence_doc = None\<rparr>
      in p\<lparr>files := newFile # files p,
            timers := timers p @
              map (\<lambda>(i, stg). \<lparr>due = clock p + (i + 1) * 1200, target = ident,
                                stage = stg, index = i\<rparr>)
                  (enumerate 0 stages)\<rparr>)"

definition handleDrop :: "string list \<Rightarrow> Page \<Rightarrow> Page" where
  "handleDrop dropped p = fold simulateUpload dropped (p\<lparr>dragOver := False\<rparr>)"

definition slice_last :: "nat \<Rightarrow> string \<Rightarrow> string" where
  "slice_last k s = drop (length s - k) s"

definition clickUpload :: "Page \<Rightarrow> Page" where
  "clickUpload p =
     simulateUpload (''Document_'' @ slice_last 6 (toString (clock p)) @ ''.pdf'') p"

definition removeFile :: "string \<Rightarrow> Page \<Rightarrow> Page" where
  "removeFile ident p = p\<lparr>files := filter (\<lambda>f. id_doc f \<noteq> ident) (files p)\<rparr>"

text \<open>
  The browser runs a timer no sooner than it is due, and of the timers that are due the
  one that falls due first, in order of registration among equals.  Every matching file
  of the list draws its own random numbers, so the type draws \<open>rs\<close> and the computed
  confidences \<open>cs\<close> are given by list position.
\<close>

fun earliest :: "Timer list \<Rightarrow> Timer option" where
  "earliest [] = None"
| "earliest (t # ts) =
     (case earliest ts of
        None \<Rightarrow> Some t
      | Some u \<Rightarrow> if due u < due t then Some u else Some t)"

definition fireTimer :: "(nat \<Rightarrow> real) \<Rightarrow> (nat \<Rightarrow> real) \<Rightarrow> Page \<Rightarrow> Page" where
  "fireTimer rs cs p =
     (case earliest (filter (\<lambda>t. due t \<le> clock p) (timers p)) of
        None \<Rightarrow> p
      | Some tm \<Rightarrow>
          p\<lparr>files := map (\<lambda>(n, f). stageUpdate tm (rs n) (cs n) f) (enumerate 0 (files p)),
            timers := remove1 tm (timers p)\<rparr>)"

text \<open>
  What can happen to the page: a click on the upload zone, a drop of files, the drag
  indicators, the remove button of a row, time passing, and the browser running the
  next due timer.  Time only moves forward, and \<^verbatim>\<open>Date.now()\<close> reads the clock the
  timers run by.
\<close>

datatype Event =
    Click
  | Drop "string list"
  | DragOver
  | DragLeave
  | Remove string
  | Tick nat
  | Fire "nat \<Rightarrow> real" "nat \<Rightarrow> real"

fun step :: "Event \<Rightarrow> Page \<Rightarrow> Page" where
  "step Click p = clickUpload p"
| "step (Drop dropped) p = handleDrop dropped p"
| "step DragOver p = p\<lparr>dragOver := True\<rparr>"
| "step DragLeave p = p\<lparr>dragOver := False\<rparr>"
| "step (Remove ident) p = removeFile ident p"
| "step (Tick d) p = p\<lparr>clock := clock p + d\<rparr>"
| "step (Fire rs cs) p = fireTimer rs cs p"

definition run :: "Event list \<Rightarrow> Page \<Rightarrow> Page" where
  "run es p = fold step es p"

text \<open>
  The confidence badge of a row: \<^verbatim>\<open>file.confidence && (...)\<close> renders no badge
  for an undefined or zero confidence.
\<close>

definition confidenceBadge :: "DocFile \<Rightarrow> string option" where
  "confidenceBadge file =
     (case confidence_doc file of
        None \<Rightarrow> None
      | Some c \<Rightarrow>
          if c = 0 then None
          else if c > 90 then Some ''bg-success/10 text-success''
          else Some ''bg-warning/10 text-warning'')"


section \<open>The specification's words\<close>


text \<open>
  The specification's reading of a field: the corrected value when there is one, the
  extracted value otherwise.
\<close>

definition spec_effective :: "Field \<Rightarrow> string" where
  "spec_effective f = (case corrected f of Some c \<Rightarrow> c | None \<Rightarrow> value f)"

text \<open>
  The specification's balance continuity, on exact amounts.  The page holds amounts as
  text only; \<open>spec_amount\<close> reads such a text as a number of paise: the digits before
  the decimal point, the first two after it, everything else (currency sign, digit
  grouping) skipped.
\<close>

definition spec_amount :: "string \<Rightarrow> int" where
  "spec_amount s =
     (let whole = takeWhile (\<lambda>c. c \<noteq> CHR ''.'') s;
          frac = drop 1 (dropWhile (\<lambda>c. c \<noteq> CHR ''.'') s)
      in int (number_of whole * 100 + number_of (take 2 (frac @ ''00''))))"

definition spec_signed :: "Transaction \<Rightarrow> int" where
  "spec_signed t = spec_amount (credit t) - spec_amount (debit t)"

definition spec_balance_continuity :: "int \<Rightarrow> int \<Rightarrow> int list \<Rightarrow> bool" where
  "spec_balance_continuity opening closing ts = (opening + sum_list ts = closing)"

definition spec_field :: "string \<Rightarrow> Reviewer \<Rightarrow> string" where
  "spec_field k s =
     (case find (\<lambda>f. key f = k) (fields_st s) of
        Some f \<Rightarrow> spec_effective f
      | None \<Rightarrow> [])"

definition spec_balance_of :: "Reviewer \<Rightarrow> bool" where
  "spec_balance_of s =
     spec_balance_continuity
       (spec_amount (spec_field ''opening_balance'' s))
       (spec_amount (spec_field ''closing_balance'' s))
       (map spec_signed transactions)"


section \<open>Reachable pages\<close>

text \<open>
  The order in which \<^verbatim>\<open>simulateUpload\<close> writes statuses: the initial status of the new
  file, then the stages in the order of the array.
\<close>

definition pipeline :: "Status list" where
  "pipeline = Uploading # stages"

definition follows :: "Status \<Rightarrow> Status \<Rightarrow> bool" where
  "follows a b = ((a, b) \<in> set (zip pipeline (tl pipeline)))"

text \<open>
  The invariant of the pages that can be reached.  Every pending timer was registered
  by an upload at some clock reading \<open>t\<close>: it targets the id \<open>toString t\<close> and falls
  due \<open>1200 * (i + 1)\<close> milliseconds later.  Every file is either one of the three
  built-in documents, untouched, or was uploaded at some reading \<open>t\<close>; then the pending
  timers of its id are those of its current stage or later, and the timer of every
  later stage is still pending.
\<close>

fun rank :: "Status \<Rightarrow> nat" where
  "rank Uploading = 0"
| "rank Classifying = 1"
| "rank Extracting = 2"
| "rank Validating = 3"
| "rank Done = 4"
| "rank Review = 5"

definition timer_ok :: "nat \<Rightarrow> Timer \<Rightarrow> bool" where
  "timer_ok now tm =
     (\<exists>t. target tm = toString t \<and> 3 < t \<and> t \<le> now \<and> index tm < 4 \<and>
          due tm = t + (index tm + 1) * 1200 \<and> stage tm = stages ! index tm)"

definition tracks :: "Timer list \<Rightarrow> nat \<Rightarrow> DocFile \<Rightarrow> nat \<Rightarrow> bool" where
  "tracks ts now f t =
     (id_doc f = toString t \<and> 3 < t \<and> t \<le> now \<and> status f \<noteq> Review \<and>
      (confidence_doc f = None \<longleftrightarrow> status f \<noteq> Done) \<and>
      (0 < rank (status f) \<longrightarrow> t < now) \<and>
      (\<forall>tm \<in> set ts. target tm = id_doc f \<longrightarrow> rank (status f) \<le> index tm + 1) \<and>
      (\<forall>i. rank (status f) \<le> i \<and> i < 4 \<longrightarrow>
           (\<exists>tm \<in> set ts. target tm = id_doc f \<and> index tm = i)))"

definition file_ok :: "Timer list \<Rightarrow> nat \<Rightarrow> DocFile \<Rightarrow> bool" where
  "file_ok ts now f = (f \<in> set mockDocs \<or> (\<exists>t. tracks ts now f t))"

definition page_inv :: "Page \<Rightarrow> bool" where
  "page_inv p =
     (3 < clock p \<and>
      (\<forall>tm \<in> set (timers p). timer_ok (clock p) tm) \<and>
      (\<forall>f \<in> set (files p). file_ok (timers p) (clock p) f))"




text \<open>
  Sample outcomes, the same for every file: \<^verbatim>\<open>Math.random()\<close> returning one half, and
  the confidence that \<^verbatim>\<open>85 + 0.5 * 14\<close> then evaluates to, which is 92 in doubles as
  well.
\<close>

definition half :: "nat \<Rightarrow> real" where
  "half n = 1 / 2"

definition sample92 :: "nat \<Rightarrow> real" where
  "sample92 n = 92"


section \<open>Properties of saving an edit\<close>

lemma fields_saveEdit:
  "fields_st (saveEdit k s) = map (saveField k (editValue s)) (fields_st s)"
  by (simp add: saveEdit_def)

lemma fields_onChange: "fields_st (onChange v s) = fields_st s"
  by (simp add: onChange_def)

lemma editValue_onChange: "editValue (onChange v s) = v"
  by (simp add: onChange_def)

lemma fields_initialReviewer: "fields_st initialReviewer = initialFields"
  by (simp add: initialReviewer_def)

lemma fields_correct:
  "i < length (fields_st s) \<Longrightarrow>
   fields_st (correct i v s) = map (saveField (key (fields_st s ! i)) v) (fields_st s)"
  by (simp add: correct_def saveEdit_def onChange_def startEdit_def)

lemma saveField_other: "key f \<noteq> k \<Longrightarrow> saveField k ev f = f"
  by (simp add: saveField_def)

lemma saveField_keeps:
  "key (saveField k ev f) = key f"
  "label (saveField k ev f) = label f"
  "value (saveField k ev f) = value f"
  "confidence (saveField k ev f) = confidence f"
  by (simp_all add: saveField_def)

lemma saveField_corrected:
  "key f = k \<Longrightarrow>
   corrected (saveField k ev f) = (if ev \<noteq> value f then Some ev else None)"
  by (simp add: saveField_def)

lemma initial_employer:
  "length initialFields = 11"
  "initialFields ! 10 = mkField ''employer'' ''Employer Name'' ''Infosys Technologies Ltd'' 68.3"
  "initialFields ! 0 = mkField ''account_holder'' ''Account Holder'' ''Rajesh Kumar Sharma'' 98.2"
  by (simp_all add: initialFields_def)

lemma fields_startEdit: "fields_st (startEdit f s) = fields_st s"
  by (simp add: startEdit_def)

lemma initial_field_facts:
  "key (initialFields ! 10) = ''employer''"
  "value (initialFields ! 10) = ''Infosys Technologies Ltd''"
  "confidence (initialFields ! 10) = 68.3"
  "corrected (initialFields ! 10) = None"
  by (simp_all add: initial_employer mkField_def)


text \<open>
  Claim C10.  For every field list and every key \<open>k\<close>, saving a correction for \<open>k\<close>
  keeps the list's length and order, leaves every field whose key differs from \<open>k\<close>
  completely unchanged, and for a field with key \<open>k\<close> changes at most the \<open>corrected\<close>
  component: key, label, value and confidence are the ones it had.
\<close>

theorem saveEdit_frame:
  assumes "i < length (fields_st s)"
  shows "length (fields_st (saveEdit k s)) = length (fields_st s) \<and>
         (key (fields_st s ! i) \<noteq> k \<longrightarrow>
            fields_st (saveEdit k s) ! i = fields_st s ! i) \<and>
         fields_st (saveEdit k s) ! i
           = (fields_st s ! i)\<lparr>corrected := corrected (fields_st (saveEdit k s) ! i)\<rparr>"
  using assms by (simp add: fields_saveEdit saveField_def)

theorem saveEdit_frame_witness:
  "fields_st (saveEdit ''employer'' (onChange ''Infosys Ltd'' initialReviewer)) ! 0
     = initialFields ! 0 \<and>
   fields_st (saveEdit ''employer'' (onChange ''Infosys Ltd'' initialReviewer)) ! 10
     = (initialFields ! 10)\<lparr>corrected := Some ''Infosys Ltd''\<rparr>"
proof -
  let ?s = "onChange ''Infosys Ltd'' initialReviewer"
  have fs: "fields_st ?s = initialFields"
    by (simp add: fields_onChange fields_initialReviewer)
  have c: "corrected (fields_st (saveEdit ''employer'' ?s) ! 10) = Some ''Infosys Ltd''"
    by (simp add: fields_saveEdit fs editValue_onChange initial_employer
        saveField_def mkField_def)
  have k0: "key (fields_st ?s ! 0) \<noteq> ''employer''"
    by (simp add: fs initial_employer mkField_def)
  have i0: "0 < length (fields_st ?s)" and i10: "10 < length (fields_st ?s)"
    by (simp_all add: fs initial_employer)
  from saveEdit_frame [OF i0, of "''employer''"] k0
  have "fields_st (saveEdit ''employer'' ?s) ! 0 = initialFields ! 0"
    by (simp add: fs)
  moreover from saveEdit_frame [OF i10, of "''employer''"] c
  have "fields_st (saveEdit ''employer'' ?s) ! 10
          = (initialFields ! 10)\<lparr>corrected := Some ''Infosys Ltd''\<rparr>"
    by (simp add: fs)
  ultimately show ?thesis by simp
qed


text \<open>
  Claim C3 as stated fails: not every saved correction sets the corrected value.  The
  employer field is corrected to ``Infosys Limited''; then the extracted text is typed
  back and saved.  That save does not record its text: it removes the correction.
\<close>

theorem save_clears_correction_counterexample:
  "corrected (fields_st (saveEdit ''employer'' (onChange ''Infosys Limited'' initialReviewer)) ! 10)
     = Some ''Infosys Limited'' \<and>
   editValue (onChange ''Infosys Technologies Ltd''
      (saveEdit ''employer'' (onChange ''Infosys Limited'' initialReviewer)))
     = ''Infosys Technologies Ltd'' \<and>
   corrected (fields_st (saveEdit ''employer'' (onChange ''Infosys Technologies Ltd''
      (saveEdit ''employer'' (onChange ''Infosys Limited'' initialReviewer)))) ! 10)
     \<noteq> Some ''Infosys Technologies Ltd'' \<and>
   corrected (fields_st (saveEdit ''employer'' (onChange ''Infosys Technologies Ltd''
      (saveEdit ''employer'' (onChange ''Infosys Limited'' initialReviewer)))) ! 10)
     = None"
  by (simp add: fields_saveEdit fields_onChange editValue_onChange fields_initialReviewer
      initial_employer saveField_def mkField_def)

text \<open>
  Claim C3, amended.  Every save, whatever the text of the edit box, leaves the
  extracted value and the confidence of every field of the list as they were; for a
  field with the saved key it sets the corrected value to the text of the edit box
  when that text differs from the field's extracted value, and clears the corrected
  value when the two are identical.
\<close>

theorem correction_keeps_history:
  assumes "i < length (fields_st s)"
    and "key (fields_st s ! i) = k"
  shows "corrected (fields_st (saveEdit k s) ! i)
           = (if editValue s \<noteq> value (fields_st s ! i) then Some (editValue s) else None) \<and>
         value (fields_st (saveEdit k s) ! i) = value (fields_st s ! i) \<and>
         confidence (fields_st (saveEdit k s) ! i) = confidence (fields_st s ! i) \<and>
         map value (fields_st (saveEdit k' s)) = map value (fields_st s) \<and>
         map confidence (fields_st (saveEdit k' s)) = map confidence (fields_st s)"
  using assms by (simp add: fields_saveEdit saveField_keeps saveField_corrected comp_def)

theorem correction_keeps_history_witness:
  "corrected (fields_st (saveEdit ''employer'' (onChange ''Infosys Limited'' initialReviewer)) ! 10)
     = Some ''Infosys Limited'' \<and>
   value (fields_st (saveEdit ''employer'' (onChange ''Infosys Limited'' initialReviewer)) ! 10)
     = ''Infosys Technologies Ltd'' \<and>
   confidence (fields_st (saveEdit ''employer'' (onChange ''Infosys Limited'' initialReviewer)) ! 10)
     = 68.3 \<and>
   map confidence (fields_st (saveEdit ''employer'' (onChange ''Infosys Limited'' initialReviewer)))
     = map confidence initialFields"
proof -
  let ?s = "onChange ''Infosys Limited'' initialReviewer"
  have fs: "fields_st ?s = initialFields"
    by (simp add: fields_onChange fields_initialReviewer)
  have a1: "10 < length (fields_st ?s)"
    by (simp add: fs initial_employer)
  have a2: "key (fields_st ?s ! 10) = ''employer''"
    by (simp add: fs initial_field_facts)
  from correction_keeps_history [OF a1 a2, of "''employer''"] show ?thesis
    by (simp add: fs initial_field_facts editValue_onChange)
qed

text \<open>
  Claim C7.  Saving an edit whose text is identical to the field's extracted value
  records no correction: the field's \<open>corrected\<close> component is cleared (whatever it
  held before), the row shows the extracted value, and the row carries no
  ``corrected'' badge.
\<close>
theorem identical_edit_clears:
  assumes "i < length (fields_st s)"
    and "key (fields_st s ! i) = k"
    and "editValue s = value (fields_st s ! i)"
  shows "corrected (fields_st (saveEdit k s) ! i) = None \<and>
         displayedValue (fields_st (saveEdit k s) ! i) = value (fields_st s ! i) \<and>
         \<not> correctedBadge (fields_st (saveEdit k s) ! i)"
  using assms
  by (simp add: fields_saveEdit saveField_def displayedValue_def correctedBadge_def
      or_else_def truthy_def)

theorem identical_edit_clears_witness:
  "corrected (fields_st (saveEdit ''employer''
      (onChange ''Infosys Technologies Ltd''
         (saveEdit ''employer'' (onChange ''Infosys Limited'' initialReviewer)))) ! 10) = None"
proof -
  let ?s1 = "saveEdit ''employer'' (onChange ''Infosys Limited'' initialReviewer)"
  let ?s = "onChange ''Infosys Technologies Ltd'' ?s1"
  have fs: "fields_st ?s = map (saveField ''employer'' ''Infosys Limited'') initialFields"
    by (simp add: fields_onChange fields_saveEdit editValue_onChange fields_initialReviewer)
  have a1: "10 < length (fields_st ?s)"
    by (simp add: fs initial_employer)
  have a2: "key (fields_st ?s ! 10) = ''employer''"
    by (simp add: fs initial_employer saveField_keeps mkField_def)
  have a3: "editValue ?s = value (fields_st ?s ! 10)"
    by (simp add: fs initial_employer saveField_keeps mkField_def editValue_onChange)
  from identical_edit_clears [OF a1 a2 a3] show ?thesis
    by simp
qed

text \<open>
  Claim C9.  Correcting a field to a value \<open>v\<close> records \<open>v\<close> as its correction (when
  \<open>v\<close> is a new value, different from the extracted one).  Saving a second edit equal
  to the field's extracted value then clears the correction, which for a field that
  started uncorrected gives back exactly the field one started from.  Each save compares
  the edit box against the extracted value, never against the previous correction:
  saving \<open>v\<close> a second time keeps the correction \<open>v\<close>.
\<close>

theorem correct_then_restore:
  assumes "i < length (fields_st s)"
  shows "fields_st (correct i v s) ! i
           = (fields_st s ! i)\<lparr>corrected :=
                (if v \<noteq> value (fields_st s ! i) then Some v else None)\<rparr> \<and>
         fields_st (correct i (value (fields_st s ! i)) (correct i v s)) ! i
           = (fields_st s ! i)\<lparr>corrected := None\<rparr> \<and>
         (corrected (fields_st s ! i) = None \<longrightarrow>
            fields_st (correct i (value (fields_st s ! i)) (correct i v s)) ! i
              = fields_st s ! i) \<and>
         fields_st (correct i v (correct i v s)) ! i = fields_st (correct i v s) ! i"
proof -
  let ?f = "fields_st s ! i"
  let ?s1 = "correct i v s"
  have step: "fields_st (correct i w t) ! i = saveField (key (fields_st t ! i)) w (fields_st t ! i)"
    if "i < length (fields_st t)" for w t
    using that by (simp add: fields_correct)
  have len: "i < length (fields_st ?s1)"
    using assms by (simp add: fields_correct)
  have first: "fields_st ?s1 ! i
      = ?f\<lparr>corrected := (if v \<noteq> value ?f then Some v else None)\<rparr>"
    using assms by (simp add: step saveField_def)
  have second: "fields_st (correct i (value ?f) ?s1) ! i = ?f\<lparr>corrected := None\<rparr>"
    using len by (simp add: step first saveField_def)
  have again: "fields_st (correct i v ?s1) ! i = fields_st ?s1 ! i"
    using len by (simp add: step first saveField_def)
  from first second again show ?thesis by simp
qed

theorem correct_then_restore_witness:
  "fields_st (correct 10 ''Infosys Limited'' initialReviewer) ! 10
     = (initialFields ! 10)\<lparr>corrected := Some ''Infosys Limited''\<rparr> \<and>
   fields_st (correct 10 ''Infosys Technologies Ltd''
      (correct 10 ''Infosys Limited'' initialReviewer)) ! 10
     = initialFields ! 10 \<and>
   fields_st (correct 10 ''Infosys Limited'' (correct 10 ''Infosys Limited'' initialReviewer)) ! 10
     = (initialFields ! 10)\<lparr>corrected := Some ''Infosys Limited''\<rparr>"
proof -
  have a1: "10 < length (fields_st initialReviewer)"
    by (simp add: fields_initialReviewer initial_employer)
  have a2: "corrected (initialFields ! 10) = None"
    by (simp add: initial_field_facts)
  note t = correct_then_restore [OF a1, of "''Infosys Limited''"]
  from t have "fields_st (correct 10 ''Infosys Limited'' initialReviewer) ! 10
     = (initialFields ! 10)\<lparr>corrected := Some ''Infosys Limited''\<rparr>"
    by (simp add: fields_initialReviewer initial_field_facts)
  moreover from t a2 have "fields_st (correct 10 ''Infosys Technologies Ltd''
      (correct 10 ''Infosys Limited'' initialReviewer)) ! 10 = initialFields ! 10"
    by (simp add: fields_initialReviewer initial_field_facts)
  moreover from t have
    "fields_st (correct 10 ''Infosys Limited'' (correct 10 ''Infosys Limited'' initialReviewer)) ! 10
     = (initialFields ! 10)\<lparr>corrected := Some ''Infosys Limited''\<rparr>"
    by (simp add: fields_initialReviewer initial_field_facts)
  ultimately show ?thesis by simp
qed

text \<open>
  What a row shows, by cases on the correction: the extracted value when there is none,
  the correction when it is not empty, and the extracted value again when the
  correction is the empty string.
\<close>

lemma displayedValue_cases:
  "corrected f = None \<Longrightarrow> displayedValue f = value f \<and> \<not> correctedBadge f"
  "corrected f = Some c \<Longrightarrow> c \<noteq> [] \<Longrightarrow> displayedValue f = c \<and> correctedBadge f"
  "corrected f = Some [] \<Longrightarrow> displayedValue f = value f \<and> \<not> correctedBadge f"
  by (simp_all add: displayedValue_def correctedBadge_def or_else_def truthy_def)

text \<open>
  Claim C8, evaluated where it fails.  The reviewer empties the edit box of the employer
  field and saves.  \<open>saveEdit\<close> records the empty string as the correction, so a
  corrected value is present and the specification's effective value is empty; yet the
  row still shows the extracted value, carries no ``corrected'' badge, and the next
  edit starts from the extracted value again.
\<close>
theorem empty_correction_not_authoritative:
  "corrected (fields_st (correct 10 [] initialReviewer) ! 10) = Some [] \<and>
   spec_effective (fields_st (correct 10 [] initialReviewer) ! 10) = [] \<and>
   displayedValue (fields_st (correct 10 [] initialReviewer) ! 10) = ''Infosys Technologies Ltd'' \<and>
   \<not> correctedBadge (fields_st (correct 10 [] initialReviewer) ! 10) \<and>
   editValue (startEdit (fields_st (correct 10 [] initialReviewer) ! 10) (correct 10 [] initialReviewer))
     = ''Infosys Technologies Ltd''"
proof -
  have len: "10 < length (fields_st initialReviewer)"
    by (simp add: fields_initialReviewer initial_employer)
  have f: "fields_st (correct 10 [] initialReviewer) ! 10
             = (initialFields ! 10)\<lparr>corrected := Some []\<rparr>"
    using len
    by (simp add: fields_correct fields_initialReviewer initial_employer saveField_def
        mkField_def)
  show ?thesis
    by (simp add: f initial_employer mkField_def spec_effective_def displayedValue_def
        correctedBadge_def or_else_def truthy_def startEdit_def)
qed


section \<open>Confidence display and validation checks\<close>

lemma mockDocs_third:
  "mockDocs ! 2 = \<lparr>id_doc = ''3'', name = ''Settlement_Letter.pdf'', status = Review,
      type = Some ''Settlement Letter'', confidence_doc = Some 72.1\<rparr>"
  by (simp add: mockDocs_def)

text \<open>
  Claim C6 as stated fails: a confidence of 89.5 is shown at the medium level although
  it is not between 75 and 89, and the Upload list shows the 72.1 of its third document
  at the warning level where the Reviewer's scale puts 72.1 at the low level.
\<close>
theorem medium_band_counterexample:
  "confidenceColor 89.5 = ''text-warning'' \<and> \<not> (75 \<le> (89.5 :: real) \<and> (89.5 :: real) \<le> 89) \<and>
   confidenceColor 72.1 = ''text-destructive'' \<and>
   confidence_doc (mockDocs ! 2) = Some 72.1 \<and>
   confidenceBadge (mockDocs ! 2) = Some ''bg-warning/10 text-warning''"
  by (simp add: confidenceColor_def mockDocs_third confidenceBadge_def)

text \<open>
  Claim C6, amended.  The Reviewer's chip classifies every confidence \<open>c\<close> as high
  exactly when \<open>c \<ge> 90\<close>, as medium exactly when \<open>75 \<le> c < 90\<close> and as low exactly
  when \<open>c < 75\<close>, colour and background agreeing, and the attention flag is shown
  exactly at the low level.  The badge of the Upload list is a display of its own with
  two levels only.
\<close>

theorem reviewer_confidence_levels:
  "(confidenceColor c = ''text-success'' \<longleftrightarrow> 90 \<le> c) \<and>
   (confidenceColor c = ''text-warning'' \<longleftrightarrow> 75 \<le> c \<and> c < 90) \<and>
   (confidenceColor c = ''text-destructive'' \<longleftrightarrow> c < 75) \<and>
   (confidenceBg c = ''bg-success/10'' \<longleftrightarrow> 90 \<le> c) \<and>
   (confidenceBg c = ''bg-warning/10'' \<longleftrightarrow> 75 \<le> c \<and> c < 90) \<and>
   (confidenceBg c = ''bg-destructive/10'' \<longleftrightarrow> c < 75) \<and>
   (attentionFlag f \<longleftrightarrow> confidenceColor (confidence f) = ''text-destructive'') \<and>
   (confidenceBadge d = None \<or>
    confidenceBadge d = Some ''bg-success/10 text-success'' \<or>
    confidenceBadge d = Some ''bg-warning/10 text-warning'')"
  by (simp add: confidenceColor_def confidenceBg_def attentionFlag_def confidenceBadge_def
      split: option.split)

lemma spec_amount_opening: "spec_amount (rupee @ ''1,24,567.89'') = 12456789"
  by (simp add: spec_amount_def number_of_def digit_of_def rupee_def)

lemma spec_amount_closing: "spec_amount (rupee @ ''1,87,234.56'') = 18723456"
  by (simp add: spec_amount_def number_of_def digit_of_def rupee_def)

lemma spec_signed_transactions:
  "map spec_signed transactions = [8500000, -45600, -3250000, -234000, 1296267]"
  by (simp add: transactions_def spec_signed_def spec_amount_def number_of_def digit_of_def
      rupee_def)

lemma spec_field_initial:
  "spec_field ''opening_balance'' initialReviewer = rupee @ ''1,24,567.89''"
  "spec_field ''closing_balance'' initialReviewer = rupee @ ''1,87,234.56''"
  by (simp_all add: spec_field_def fields_initialReviewer initialFields_def mkField_def
      spec_effective_def)

lemma spec_balance_initial: "spec_balance_of initialReviewer"
  by (simp add: spec_balance_of_def spec_field_initial spec_amount_opening
      spec_amount_closing spec_signed_transactions spec_balance_continuity_def)


section \<open>Decimal ids and the order of timers\<close>

subsection \<open>Decimal rendering is injective\<close>

lemma toString_small: "n < 10 \<Longrightarrow> toString n = [digit n]"
  by (subst toString.simps) simp

lemma toString_big: "10 \<le> n \<Longrightarrow> toString n = toString (n div 10) @ [digit (n mod 10)]"
  by (subst toString.simps) simp

lemma below_ten: "(d::nat) < 10 \<Longrightarrow> d \<in> {0, 1, 2, 3, 4, 5, 6, 7, 8, 9}"
  by auto

lemma digit_of_digit: "d < 10 \<Longrightarrow> digit_of (digit d) = Some d"
  by (drule below_ten) (auto simp add: digit_of_def digit_def)

lemma number_of_snoc:
  "number_of (s @ [c]) = (case digit_of c of Some d \<Rightarrow> 10 * number_of s + d | None \<Rightarrow> number_of s)"
  unfolding number_of_def by simp

lemma number_of_single: "d < 10 \<Longrightarrow> number_of [digit d] = d"
  by (simp add: number_of_def digit_of_digit)

lemma number_of_toString: "number_of (toString n) = n"
proof (induction n rule: toString.induct)
  case (1 n)
  show ?case
  proof (cases "n < 10")
    case True
    then show ?thesis by (simp add: toString_small number_of_single)
  next
    case False
    then have "number_of (toString (n div 10)) = n div 10"
      using "1.IH" by simp
    with False show ?thesis
      by (simp add: toString_big number_of_snoc digit_of_digit)
  qed
qed

lemma toString_inj: "toString a = toString b \<Longrightarrow> a = b"
  by (metis number_of_toString)

lemma mock_ids: "f \<in> set mockDocs \<Longrightarrow> number_of (id_doc f) \<le> 3"
  by (auto simp add: mockDocs_def number_of_def digit_of_def)

lemma mock_not_target: "f \<in> set mockDocs \<Longrightarrow> 3 < t \<Longrightarrow> id_doc f \<noteq> toString t"
  using mock_ids [of f] number_of_toString [of t] by auto

subsection \<open>The next timer\<close>

lemma earliest_None: "earliest ts = None \<longleftrightarrow> ts = []"
  by (induction ts) (auto split: option.splits)

lemma earliest_Some:
  "earliest ts = Some tm \<Longrightarrow> tm \<in> set ts \<and> (\<forall>u \<in> set ts. due tm \<le> due u)"
proof (induction ts arbitrary: tm)
  case Nil
  then show ?case by simp
next
  case (Cons t ts)
  show ?case
  proof (cases "earliest ts")
    case None
    with Cons.prems show ?thesis by (simp add: earliest_None)
  next
    case (Some u)
    with Cons.IH have u: "u \<in> set ts" "\<forall>w \<in> set ts. due u \<le> due w" by auto
    from Cons.prems Some u show ?thesis
      by (auto split: if_splits)
  qed
qed

lemma next_due:
  assumes "earliest (filter (\<lambda>t. due t \<le> now) ts) = Some tm"
  shows "tm \<in> set ts" and "due tm \<le> now"
    and "\<And>u. u \<in> set ts \<Longrightarrow> due u \<le> now \<Longrightarrow> due tm \<le> due u"
  using earliest_Some [OF assms] by auto

subsection \<open>Stages and ranks\<close>

lemma below_four: "(i::nat) < 4 \<Longrightarrow> i = 0 \<or> i = 1 \<or> i = 2 \<or> i = 3"
  by arith

lemma rank_stage: "i < 4 \<Longrightarrow> rank (stages ! i) = i + 1"
  by (drule below_four) (auto simp add: stages_def)

lemma stage_not_review: "i < 4 \<Longrightarrow> stages ! i \<noteq> Review"
  by (drule below_four) (auto simp add: stages_def)

lemma status_of_rank: "s \<noteq> Review \<Longrightarrow> rank s = i + 1 \<Longrightarrow> s = stages ! i"
  by (cases s) (auto simp add: stages_def)

lemma follows_iff:
  "follows a b \<longleftrightarrow>
     (a = Uploading \<and> b = Classifying) \<or> (a = Classifying \<and> b = Extracting) \<or>
     (a = Extracting \<and> b = Validating) \<or> (a = Validating \<and> b = Done)"
  by (auto simp add: follows_def pipeline_def stages_def)

lemma follows_rank: "s \<noteq> Review \<Longrightarrow> rank s < 4 \<Longrightarrow> follows s (stages ! rank s)"
  by (cases s) (simp_all add: follows_iff stages_def)


subsection \<open>Running the next timer\<close>

lemma fireTimer_None:
  "earliest (filter (\<lambda>t. due t \<le> clock p) (timers p)) = None \<Longrightarrow> fireTimer r1 r2 p = p"
  by (simp add: fireTimer_def)

lemma fireTimer_Some:
  assumes "earliest (filter (\<lambda>t. due t \<le> clock p) (timers p)) = Some tm"
  shows "files (fireTimer r1 r2 p)
           = map (\<lambda>(n, f). stageUpdate tm (r1 n) (r2 n) f) (enumerate 0 (files p))"
    and "timers (fireTimer r1 r2 p) = remove1 tm (timers p)"
    and "clock (fireTimer r1 r2 p) = clock p"
  using assms by (simp_all add: fireTimer_def)

lemma length_fireTimer: "length (files (fireTimer r1 r2 p)) = length (files p)"
  by (simp add: fireTimer_def split: option.split)

lemma nth_fireTimer:
  assumes "earliest (filter (\<lambda>t. due t \<le> clock p) (timers p)) = Some tm"
    and "n < length (files p)"
  shows "files (fireTimer r1 r2 p) ! n = stageUpdate tm (r1 n) (r2 n) (files p ! n)"
  using assms(2) by (simp add: fireTimer_Some(1) [OF assms(1)] nth_enumerate_eq)

lemma set_fireTimer:
  assumes "earliest (filter (\<lambda>t. due t \<le> clock p) (timers p)) = Some tm"
    and "g \<in> set (files (fireTimer r1 r2 p))"
  shows "\<exists>f \<in> set (files p). \<exists>a b. g = stageUpdate tm a b f"
proof -
  from assms(2) obtain n where n: "n < length (files (fireTimer r1 r2 p))"
    and g: "g = files (fireTimer r1 r2 p) ! n"
    by (auto simp add: in_set_conv_nth)
  from n have n': "n < length (files p)" by (simp add: length_fireTimer)
  with g have "g = stageUpdate tm (r1 n) (r2 n) (files p ! n)"
    by (simp add: nth_fireTimer [OF assms(1)])
  moreover from n' have "files p ! n \<in> set (files p)" by simp
  ultimately show ?thesis by blast
qed

lemma stageUpdate_other: "id_doc f \<noteq> target tm \<Longrightarrow> stageUpdate tm a b f = f"
  by (simp add: stageUpdate_def)

lemma stageUpdate_hit:
  "id_doc f = target tm \<Longrightarrow> status (stageUpdate tm a b f) = stage tm"
  by (simp add: stageUpdate_def)

lemma stageUpdate_confidence:
  "id_doc f = target tm \<Longrightarrow>
   confidence_doc (stageUpdate tm a b f) = (if stage tm = Done then Some b else None)"
  by (simp add: stageUpdate_def)

lemma stageUpdate_keeps:
  "id_doc (stageUpdate tm a b f) = id_doc f"
  "name (stageUpdate tm a b f) = name f"
  by (simp_all add: stageUpdate_def)

text \<open>Among the pending timers of one document the next timer has the least index.\<close>

lemma min_index:
  assumes "page_inv p"
    and nxt: "earliest (filter (\<lambda>t. due t \<le> clock p) (timers p)) = Some tm"
    and u: "u \<in> set (timers p)" "target u = target tm"
  shows "index tm \<le> index u"
proof (rule ccontr)
  assume "\<not> index tm \<le> index u"
  then have less: "index u < index tm" by simp
  from assms(1) next_due(1) [OF nxt] have "timer_ok (clock p) tm"
    by (simp add: page_inv_def)
  then obtain t where t: "target tm = toString t" "due tm = t + (index tm + 1) * 1200"
    by (auto simp add: timer_ok_def)
  from assms(1) u(1) have "timer_ok (clock p) u"
    by (simp add: page_inv_def)
  then obtain t' where t': "target u = toString t'" "due u = t' + (index u + 1) * 1200"
    by (auto simp add: timer_ok_def)
  from t(1) t'(1) u(2) have "t' = t" by (simp add: toString_inj)
  with t(2) t'(2) less have "due u < due tm" by simp
  moreover from this next_due(2) [OF nxt] have "due u \<le> clock p" by simp
  then have "due tm \<le> due u" using next_due(3) [OF nxt u(1)] by simp
  ultimately show False by simp
qed

text \<open>What the next timer does to a file it targets.\<close>

lemma targeted_file:
  assumes "page_inv p"
    and nxt: "earliest (filter (\<lambda>t. due t \<le> clock p) (timers p)) = Some tm"
    and f: "f \<in> set (files p)" "id_doc f = target tm"
  shows "status f \<noteq> Review"
    and "f \<notin> set mockDocs"
    and "rank (status f) = index tm \<or> rank (status f) = index tm + 1"
    and "index tm < 4"
    and "stage tm = stages ! index tm"
proof -
  from assms(1) next_due(1) [OF nxt] have tok: "timer_ok (clock p) tm"
    by (simp add: page_inv_def)
  then obtain t where t: "target tm = toString t" "3 < t"
    and ix: "index tm < 4" and st: "stage tm = stages ! index tm"
    by (auto simp add: timer_ok_def)
  show "index tm < 4" by (rule ix)
  show "stage tm = stages ! index tm" by (rule st)
  from t f(2) show nm: "f \<notin> set mockDocs"
    using mock_not_target [of f t] by auto
  from assms(1) f(1) have "file_ok (timers p) (clock p) f"
    by (simp add: page_inv_def)
  with nm have nr: "status f \<noteq> Review"
    and a: "\<forall>tm \<in> set (timers p). target tm = id_doc f \<longrightarrow> rank (status f) \<le> index tm + 1"
    and b: "\<forall>i. rank (status f) \<le> i \<and> i < 4 \<longrightarrow>
              (\<exists>tm \<in> set (timers p). target tm = id_doc f \<and> index tm = i)"
    by (auto simp add: file_ok_def tracks_def)
  show "status f \<noteq> Review" by (rule nr)
  from a next_due(1) [OF nxt] f(2) have up: "rank (status f) \<le> index tm + 1"
    by simp
  have low: "index tm \<le> rank (status f)"
  proof (rule ccontr)
    assume "\<not> index tm \<le> rank (status f)"
    then have less: "rank (status f) < index tm" by simp
    with ix b obtain u where u: "u \<in> set (timers p)" "target u = id_doc f"
      "index u = rank (status f)"
      by (metis less_trans order_refl)
    from min_index [OF assms(1) nxt u(1)] u(2) f(2) have "index tm \<le> index u" by simp
    with u(3) less show False by simp
  qed
  from up low show "rank (status f) = index tm \<or> rank (status f) = index tm + 1"
    by arith
qed

lemma fire_cases:
  assumes "page_inv p" and "n < length (files p)"
  obtains (same) "files (fireTimer r1 r2 p) ! n = files p ! n"
  | (hit) tm where
      "files (fireTimer r1 r2 p) ! n = stageUpdate tm (r1 n) (r2 n) (files p ! n)"
      "id_doc (files p ! n) = target tm"
      "stage tm = stages ! index tm"
      "index tm < 4"
      "status (files p ! n) \<noteq> Review"
      "rank (status (files p ! n)) = index tm \<or> rank (status (files p ! n)) = index tm + 1"
proof (cases "earliest (filter (\<lambda>t. due t \<le> clock p) (timers p))")
  case None
  then have "files (fireTimer r1 r2 p) ! n = files p ! n" by (simp add: fireTimer_None)
  then show ?thesis by (rule same)
next
  case (Some tm)
  let ?f = "files p ! n"
  have eq: "files (fireTimer r1 r2 p) ! n = stageUpdate tm (r1 n) (r2 n) ?f"
    using Some assms(2) by (rule nth_fireTimer)
  show ?thesis
  proof (cases "id_doc ?f = target tm")
    case False
    then have "files (fireTimer r1 r2 p) ! n = ?f" by (simp add: eq stageUpdate_other)
    then show ?thesis by (rule same)
  next
    case True
    from assms(2) have mem: "?f \<in> set (files p)" by simp
    note tf = targeted_file [OF assms(1) Some mem True]
    from eq True tf(5) tf(4) tf(1) tf(3) show ?thesis by (rule hit)
  qed
qed

lemma fire_status:
  assumes "page_inv p" and "n < length (files p)"
  shows "id_doc (files (fireTimer r1 r2 p) ! n) = id_doc (files p ! n) \<and>
         name (files (fireTimer r1 r2 p) ! n) = name (files p ! n) \<and>
         (status (files (fireTimer r1 r2 p) ! n) = status (files p ! n) \<or>
          follows (status (files p ! n)) (status (files (fireTimer r1 r2 p) ! n)))"
  using assms
proof (cases rule: fire_cases [where ?r1.0 = r1 and ?r2.0 = r2])
  case same
  then show ?thesis by simp
next
  case (hit tm)
  let ?f = "files p ! n"
  have st: "status (stageUpdate tm (r1 n) (r2 n) ?f) = stages ! index tm"
    using hit(2,3) by (simp add: stageUpdate_hit)
  from hit(6) have "stages ! index tm = status ?f \<or> follows (status ?f) (stages ! index tm)"
  proof
    assume "rank (status ?f) = index tm"
    with hit(4,5) follows_rank [of "status ?f"] show ?thesis by simp
  next
    assume "rank (status ?f) = index tm + 1"
    with hit(5) status_of_rank [of "status ?f" "index tm"] show ?thesis by simp
  qed
  then show ?thesis by (simp add: hit(1) st stageUpdate_keeps)
qed

subsection \<open>The invariant of reachable pages\<close>

lemma file_ok_mock: "f \<in> set mockDocs \<Longrightarrow> file_ok ts now f"
  by (simp add: file_ok_def)

lemma file_okI:
  assumes "id_doc f = toString t" "3 < t" "t \<le> now" "status f \<noteq> Review"
    and "confidence_doc f = None \<longleftrightarrow> status f \<noteq> Done"
    and "0 < rank (status f) \<Longrightarrow> t < now"
    and "\<And>tm. tm \<in> set ts \<Longrightarrow> target tm = id_doc f \<Longrightarrow> rank (status f) \<le> index tm + 1"
    and "\<And>i. rank (status f) \<le> i \<Longrightarrow> i < 4 \<Longrightarrow>
           \<exists>tm \<in> set ts. target tm = id_doc f \<and> index tm = i"
  shows "file_ok ts now f"
proof -
  have "tracks ts now f t"
    unfolding tracks_def by (intro conjI) (use assms in auto)
  then show ?thesis by (auto simp add: file_ok_def)
qed

lemma file_okE:
  assumes "file_ok ts now f" and "f \<notin> set mockDocs"
  obtains t where "id_doc f = toString t" "3 < t" "t \<le> now" "status f \<noteq> Review"
    and "confidence_doc f = None \<longleftrightarrow> status f \<noteq> Done"
    and "0 < rank (status f) \<Longrightarrow> t < now"
    and "\<And>tm. tm \<in> set ts \<Longrightarrow> target tm = id_doc f \<Longrightarrow> rank (status f) \<le> index tm + 1"
    and "\<And>i. rank (status f) \<le> i \<Longrightarrow> i < 4 \<Longrightarrow>
           \<exists>tm \<in> set ts. target tm = id_doc f \<and> index tm = i"
proof -
  from assms obtain t where "tracks ts now f t"
    by (auto simp add: file_ok_def)
  then have c: "id_doc f = toString t" "3 < t" "t \<le> now" "status f \<noteq> Review"
    "confidence_doc f = None \<longleftrightarrow> status f \<noteq> Done"
    "0 < rank (status f) \<longrightarrow> t < now"
    "\<forall>tm \<in> set ts. target tm = id_doc f \<longrightarrow> rank (status f) \<le> index tm + 1"
    "\<forall>i. rank (status f) \<le> i \<and> i < 4 \<longrightarrow>
          (\<exists>tm \<in> set ts. target tm = id_doc f \<and> index tm = i)"
    unfolding tracks_def by blast+
  show thesis
  proof (rule that [of t])
    show "0 < rank (status f) \<Longrightarrow> t < now" using c(6) by simp
    show "\<And>tm. tm \<in> set ts \<Longrightarrow> target tm = id_doc f \<Longrightarrow> rank (status f) \<le> index tm + 1"
      using c(7) by simp
    show "\<And>i. rank (status f) \<le> i \<Longrightarrow> i < 4 \<Longrightarrow>
           \<exists>tm \<in> set ts. target tm = id_doc f \<and> index tm = i"
      using c(8) by simp
  qed (rule c)+
qed

lemma inv_initialPage: "3 < t0 \<Longrightarrow> page_inv (initialPage t0)"
  by (simp add: page_inv_def initialPage_def file_ok_mock)

lemma inv_fire:
  assumes "page_inv p"
  shows "page_inv (fireTimer r1 r2 p)"
proof (cases "earliest (filter (\<lambda>t. due t \<le> clock p) (timers p))")
  case None
  with assms show ?thesis by (simp add: fireTimer_None)
next
  case (Some tm)
  let ?p' = "fireTimer r1 r2 p"
  note fs = fireTimer_Some [OF Some, of r1 r2]
  have tm_in: "tm \<in> set (timers p)" by (rule next_due(1) [OF Some])
  from assms tm_in have tok: "timer_ok (clock p) tm" by (simp add: page_inv_def)
  have keep: "u \<in> set (remove1 tm (timers p))" if "u \<in> set (timers p)" "u \<noteq> tm" for u
    using that by simp
  have sub: "u \<in> set (timers p)" if "u \<in> set (remove1 tm (timers p))" for u
    using that set_remove1_subset [of tm "timers p"] by auto
  have "file_ok (timers ?p') (clock ?p') g" if g: "g \<in> set (files ?p')" for g
  proof -
    from set_fireTimer [OF Some g] obtain f a b
      where f: "f \<in> set (files p)" and gf: "g = stageUpdate tm a b f" by blast
    from assms f have fok: "file_ok (timers p) (clock p) f" by (simp add: page_inv_def)
    show ?thesis
    proof (cases "f \<in> set mockDocs")
      case True
      from tok obtain t where "target tm = toString t" "3 < t"
        by (auto simp add: timer_ok_def)
      with True have "id_doc f \<noteq> target tm" using mock_not_target [of f t] by simp
      then have "g = f" by (simp add: gf stageUpdate_other)
      with True show ?thesis by (simp add: file_ok_mock)
    next
      case False
      from fok False obtain t where t: "id_doc f = toString t" "3 < t" "t \<le> clock p"
        "status f \<noteq> Review"
        and e: "confidence_doc f = None \<longleftrightarrow> status f \<noteq> Done"
        and d: "0 < rank (status f) \<Longrightarrow> t < clock p"
        and a: "\<And>u. u \<in> set (timers p) \<Longrightarrow> target u = id_doc f \<Longrightarrow>
                  rank (status f) \<le> index u + 1"
        and b: "\<And>i. rank (status f) \<le> i \<Longrightarrow> i < 4 \<Longrightarrow>
                  \<exists>u \<in> set (timers p). target u = id_doc f \<and> index u = i"
        by (rule file_okE) (rule that)
      show ?thesis
      proof (cases "id_doc f = target tm")
        case other: False
        then have gf': "g = f" by (simp add: gf stageUpdate_other)
        show ?thesis unfolding fs gf'
        proof (rule file_okI [where t = t])
          fix u assume "u \<in> set (remove1 tm (timers p))" "target u = id_doc f"
          then show "rank (status f) \<le> index u + 1" using a sub by blast
        next
          fix i assume "rank (status f) \<le> i" "i < 4"
          then obtain u where u: "u \<in> set (timers p)" "target u = id_doc f" "index u = i"
            using b by blast
          with other have "u \<noteq> tm" by auto
          with u show "\<exists>u \<in> set (remove1 tm (timers p)). target u = id_doc f \<and> index u = i"
            using keep by blast
        qed (use t d e in auto)
      next
        case hit: True
        note tf = targeted_file [OF assms Some f hit]
        have idg: "id_doc g = id_doc f" by (simp add: gf stageUpdate_keeps)
        have stg: "status g = stages ! index tm"
          using hit tf(5) by (simp add: gf stageUpdate_hit)
        have rkg: "rank (status g) = index tm + 1"
          using tf(4) by (simp add: stg rank_stage)
        from tok obtain t' where t': "target tm = toString t'"
          "due tm = t' + (index tm + 1) * 1200"
          by (auto simp add: timer_ok_def)
        from t'(1) hit t(1) have "t' = t" by (simp add: toString_inj)
        with t'(2) next_due(2) [OF Some] have late: "t < clock p" by simp
        show ?thesis unfolding fs
        proof (rule file_okI [where t = t])
          show "id_doc g = toString t" by (simp add: idg t)
          show "status g \<noteq> Review" using tf(4) by (simp add: stg stage_not_review)
          show "confidence_doc g = None \<longleftrightarrow> status g \<noteq> Done"
            using hit tf(5) by (simp add: gf stageUpdate_confidence stageUpdate_hit)
          show "t < clock p" by (rule late)
        next
          fix u assume u: "u \<in> set (remove1 tm (timers p))" "target u = id_doc g"
          then have "u \<in> set (timers p)" "target u = target tm"
            using sub hit idg by auto
          from min_index [OF assms Some this] show "rank (status g) \<le> index u + 1"
            by (simp add: rkg)
        next
          fix i assume i: "rank (status g) \<le> i" "i < 4"
          with tf(3) have "rank (status f) \<le> i" by (auto simp add: rkg)
          with i(2) obtain u where u: "u \<in> set (timers p)" "target u = id_doc f" "index u = i"
            using b by blast
          from i(1) u(3) have "u \<noteq> tm" by (auto simp add: rkg)
          with u idg show "\<exists>u \<in> set (remove1 tm (timers p)). target u = id_doc g \<and> index u = i"
            using keep by auto
        qed (use t in auto)
      qed
    qed
  qed
  moreover have "timer_ok (clock ?p') u" if "u \<in> set (timers ?p')" for u
    using that assms sub by (simp add: fs page_inv_def)
  moreover have "3 < clock ?p'"
    using assms by (simp add: fs page_inv_def)
  ultimately show ?thesis by (simp add: page_inv_def)
qed

lemma simulateUpload_files:
  "files (simulateUpload nm p)
     = \<lparr>id_doc = toString (clock p), name = nm, status = Uploading, type = None,
        confidence_doc = None\<rparr> # files p"
  by (simp add: simulateUpload_def Let_def)

lemma simulateUpload_timers:
  "timers (simulateUpload nm p)
     = timers p @
       [\<lparr>due = clock p + 1200, target = toString (clock p), stage = Classifying, index = 0\<rparr>,
        \<lparr>due = clock p + 2400, target = toString (clock p), stage = Extracting, index = 1\<rparr>,
        \<lparr>due = clock p + 3600, target = toString (clock p), stage = Validating, index = 2\<rparr>,
        \<lparr>due = clock p + 4800, target = toString (clock p), stage = Done, index = 3\<rparr>]"
  by (simp add: simulateUpload_def Let_def stages_def)

lemma simulateUpload_clock: "clock (simulateUpload nm p) = clock p"
  by (simp add: simulateUpload_def Let_def)

lemma inv_simulateUpload:
  assumes "page_inv p"
  shows "page_inv (simulateUpload nm p)"
proof -
  let ?c = "clock p"
  let ?new = "[\<lparr>due = ?c + 1200, target = toString ?c, stage = Classifying, index = 0\<rparr>,
        \<lparr>due = ?c + 2400, target = toString ?c, stage = Extracting, index = 1\<rparr>,
        \<lparr>due = ?c + 3600, target = toString ?c, stage = Validating, index = 2\<rparr>,
        \<lparr>due = ?c + 4800, target = toString ?c, stage = Done, index = 3\<rparr>]"
  let ?ts = "timers p @ ?new"
  from assms have c3: "3 < ?c" by (simp add: page_inv_def)
  have new_ok: "timer_ok ?c u" if "u \<in> set ?new" for u
    using that c3 by (auto simp add: timer_ok_def stages_def intro!: exI [of _ ?c])
  have new_target: "target u = toString ?c" if "u \<in> set ?new" for u
    using that by auto
  have new_all: "\<exists>u \<in> set ?new. index u = i" if "i < 4" for i
    using below_four [OF that] by auto
  have old_ok: "file_ok ?ts ?c f" if f: "f \<in> set (files p)" for f
  proof (cases "f \<in> set mockDocs")
    case True
    then show ?thesis by (rule file_ok_mock)
  next
    case False
    from assms f have "file_ok (timers p) ?c f" by (simp add: page_inv_def)
    from this False obtain t where t: "id_doc f = toString t" "3 < t" "t \<le> ?c"
      "status f \<noteq> Review"
      and e: "confidence_doc f = None \<longleftrightarrow> status f \<noteq> Done"
      and d: "0 < rank (status f) \<Longrightarrow> t < ?c"
      and a: "\<And>u. u \<in> set (timers p) \<Longrightarrow> target u = id_doc f \<Longrightarrow>
                rank (status f) \<le> index u + 1"
      and b: "\<And>i. rank (status f) \<le> i \<Longrightarrow> i < 4 \<Longrightarrow>
                \<exists>u \<in> set (timers p). target u = id_doc f \<and> index u = i"
      by (rule file_okE) (rule that)
    show ?thesis
    proof (rule file_okI [where t = t])
      fix u assume u: "u \<in> set ?ts" "target u = id_doc f"
      show "rank (status f) \<le> index u + 1"
      proof (cases "u \<in> set (timers p)")
        case True
        from True u(2) show ?thesis by (rule a)
      next
        case False
        with u(1) have "u \<in> set ?new" by simp
        then have "target u = toString ?c" by (rule new_target)
        with u(2) t(1) have "t = ?c" by (simp add: toString_inj)
        with d have "rank (status f) = 0" by auto
        then show ?thesis by simp
      qed
    next
      fix i assume "rank (status f) \<le> i" "i < 4"
      then obtain u where "u \<in> set (timers p)" "target u = id_doc f" "index u = i"
        using b by blast
      then show "\<exists>u \<in> set ?ts. target u = id_doc f \<and> index u = i" by auto
    qed (use t d e in auto)
  qed
  have fresh_ok: "file_ok ?ts ?c \<lparr>id_doc = toString ?c, name = nm, status = Uploading,
      type = None, confidence_doc = None\<rparr>"
  proof (rule file_okI [where t = ?c])
    fix i :: nat assume "i < 4"
    then obtain u where "u \<in> set ?new" "index u = i" using new_all by blast
    moreover from this have "target u = toString ?c" using new_target by blast
    ultimately show "\<exists>u \<in> set ?ts. target u = id_doc \<lparr>id_doc = toString ?c, name = nm,
        status = Uploading, type = None, confidence_doc = None\<rparr> \<and> index u = i"
      by auto
  qed (use c3 in auto)
  have "timer_ok ?c u" if "u \<in> set ?ts" for u
    using that assms new_ok by (auto simp add: page_inv_def)
  with c3 old_ok fresh_ok show ?thesis
    unfolding page_inv_def simulateUpload_files simulateUpload_timers simulateUpload_clock
    by auto
qed

lemma inv_fold_simulateUpload: "page_inv p \<Longrightarrow> page_inv (fold simulateUpload dropped p)"
  by (induction dropped arbitrary: p) (simp_all add: inv_simulateUpload)

lemma inv_dragOver: "page_inv (p\<lparr>dragOver := b\<rparr>) = page_inv p"
  by (simp add: page_inv_def)

lemma timer_ok_later: "timer_ok now u \<Longrightarrow> timer_ok (now + d) u"
  by (auto simp add: timer_ok_def)

lemma tracks_later: "tracks ts now f t \<Longrightarrow> tracks ts (now + d) f t"
  unfolding tracks_def by (elim conjE, intro conjI) auto

lemma file_ok_later: "file_ok ts now f \<Longrightarrow> file_ok ts (now + d) f"
  unfolding file_ok_def using tracks_later by blast

lemma inv_tick: "page_inv p \<Longrightarrow> page_inv (p\<lparr>clock := clock p + d\<rparr>)"
  by (simp add: page_inv_def timer_ok_later file_ok_later)

lemma inv_removeFile: "page_inv p \<Longrightarrow> page_inv (removeFile ident p)"
  by (simp add: page_inv_def removeFile_def)

lemma inv_step: "page_inv p \<Longrightarrow> page_inv (step e p)"
  by (cases e)
    (simp_all add: clickUpload_def handleDrop_def inv_simulateUpload inv_fold_simulateUpload
      inv_dragOver inv_tick inv_removeFile inv_fire)

lemma inv_run: "page_inv p \<Longrightarrow> page_inv (run es p)"
  unfolding run_def by (induction es arbitrary: p) (simp_all add: inv_step)

lemma inv_reachable: "3 < t0 \<Longrightarrow> page_inv (run es (initialPage t0))"
  by (simp add: inv_run inv_initialPage)

section \<open>The status of a document along the pipeline\<close>

lemmas eval_page =
  run_def clickUpload_def handleDrop_def removeFile_def fireTimer_def simulateUpload_def
  initialPage_def mockDocs_def stages_def stageUpdate_def slice_last_def
  toString_small toString_big digit_def Let_def half_def sample92_def randomType_def
  types_def


lemma example_done:
  "files (run [Click, Tick 1200, Fire half sample92, Tick 1200, Fire half sample92, Tick 2400,
               Fire half sample92, Fire half sample92] (initialPage 1730000000000))
     = \<lparr>id_doc = ''1730000000000'', name = ''Document_000000.pdf'', status = Done,
        type = Some ''Payslip'', confidence_doc = Some 92\<rparr> # mockDocs"
  by (simp add: eval_page)










lemma mock_status: "f \<in> set mockDocs \<Longrightarrow> status f = Done \<or> f = mockDocs ! 2"
  by (auto simp add: mockDocs_def)

lemma follows_Classifying: "follows Classifying s \<longleftrightarrow> s = Extracting"
  by (auto simp add: follows_iff)

lemma reachable_file:
  assumes "page_inv p" and "n < length (files p)"
  shows "file_ok (timers p) (clock p) (files p ! n)"
  using assms by (simp add: page_inv_def)

section \<open>Confidence in the simulated pipeline\<close>

text \<open>
  The simulated pipeline attaches a confidence to a document only when it writes the
  status done.  In every reachable page a document in classifying has no confidence,
  the next timer leaves it in classifying or moves it to extracting, and the only
  document in review is the built-in third one.
\<close>

lemma reachable_classifying:
  assumes "3 < t0" and "n < length (files (run es (initialPage t0)))"
  shows "(status (files (run es (initialPage t0)) ! n) = Classifying \<longrightarrow>
            confidence_doc (files (run es (initialPage t0)) ! n) = None \<and>
            (status (files (fireTimer r1 r2 (run es (initialPage t0))) ! n) = Classifying \<or>
             status (files (fireTimer r1 r2 (run es (initialPage t0))) ! n) = Extracting)) \<and>
         (status (files (run es (initialPage t0)) ! n) = Review \<longrightarrow>
            files (run es (initialPage t0)) ! n = mockDocs ! 2)"
proof -
  let ?p = "run es (initialPage t0)"
  let ?f = "files ?p ! n"
  from assms(1) have i: "page_inv ?p" by (rule inv_reachable)
  from i assms(2) have fok: "file_ok (timers ?p) (clock ?p) ?f" by (rule reachable_file)
  have review: "?f = mockDocs ! 2" if "status ?f = Review"
  proof (cases "?f \<in> set mockDocs")
    case True
    with that show ?thesis using mock_status [of ?f] by auto
  next
    case False
    with fok that show ?thesis by (auto elim: file_okE)
  qed
  have classifying: "confidence_doc ?f = None \<and>
      (status (files (fireTimer r1 r2 ?p) ! n) = Classifying \<or>
       status (files (fireTimer r1 r2 ?p) ! n) = Extracting)" if c: "status ?f = Classifying"
  proof -
    from c have "?f \<notin> set mockDocs"
      using mock_status [of ?f] by (auto simp add: mockDocs_def)
    with fok c have "confidence_doc ?f = None" by (auto elim: file_okE)
    moreover from fire_status [OF i assms(2), of r1 r2] c
    have "status (files (fireTimer r1 r2 ?p) ! n) = Classifying \<or>
       status (files (fireTimer r1 r2 ?p) ! n) = Extracting"
      by (auto simp add: follows_Classifying)
    ultimately show ?thesis by simp
  qed
  from review classifying show ?thesis by blast
qed


section \<open>The balance continuity check\<close>

text \<open>
  Claim C4 as stated fails: after the opening balance is corrected to 1,00,000.00 the
  amounts no longer reconcile, and the balance continuity check is still shown as
  passed.
\<close>
theorem balance_check_counterexample:
  "map_of (validationChecks (correct 5 (rupee @ ''1,00,000.00'') initialReviewer))
     ''Balance continuity verified'' = Some True \<and>
   \<not> spec_balance_of (correct 5 (rupee @ ''1,00,000.00'') initialReviewer)"
proof -
  let ?s = "correct 5 (rupee @ ''1,00,000.00'') initialReviewer"
  have len: "5 < length (fields_st initialReviewer)"
    by (simp add: fields_initialReviewer initial_employer)
  have k: "key (initialFields ! 5) = ''opening_balance''"
    by (simp add: initialFields_def mkField_def)
  have fs: "fields_st ?s = map (saveField ''opening_balance'' (rupee @ ''1,00,000.00'')) initialFields"
    using fields_correct [OF len, of "rupee @ ''1,00,000.00''"]
    by (simp only: k fields_initialReviewer)
  have o: "spec_field ''opening_balance'' ?s = rupee @ ''1,00,000.00''"
    by (simp add: spec_field_def fs initialFields_def mkField_def saveField_def
        spec_effective_def)
  have c: "spec_field ''closing_balance'' ?s = rupee @ ''1,87,234.56''"
    by (simp add: spec_field_def fs initialFields_def mkField_def saveField_def
        spec_effective_def)
  have a: "spec_amount (rupee @ ''1,00,000.00'') = 10000000"
    by (simp add: spec_amount_def number_of_def digit_of_def rupee_def)
  have "\<not> spec_balance_of ?s"
    by (simp add: spec_balance_of_def o c a spec_amount_closing spec_signed_transactions
        spec_balance_continuity_def)
  then show ?thesis by (simp add: validationChecks_def)
qed

text \<open>
  Claim C4, amended.  The balance continuity check of the Reviewer is listed as passed
  in every state and no save changes the list of checks: it is not computed from the
  opening balance, the closing balance and the transactions.  On the built-in statement
  the opening balance plus the signed transaction amounts does equal the closing
  balance exactly.
\<close>

theorem balance_check_is_constant:
  "map_of (validationChecks s) ''Balance continuity verified'' = Some True \<and>
   validationChecks (saveEdit k s) = validationChecks s \<and>
   spec_balance_of initialReviewer"
  by (simp add: validationChecks_def spec_balance_initial)

end
